theory Spec2Isabelle
  imports Main
begin

section \<open>The room broadcaster of main.py\<close>

text \<open>
  The part of \<^verbatim>\<open>src/main.py\<close> modelled here is the websocket handler and the
  dictionary it shares between all of its running instances (lines 306 to 323):
  \<^verbatim>\<open>
  rooms: Dict[str, set] = {}

  @app.websocket("/ws/{room}")
  async def ws_room(ws: WebSocket, room: str):
      await ws.accept()
      rooms.setdefault(room, set()).add(ws)
      try:
          while True:
              msg = await ws.receive_text()
              for client in list(rooms.get(room, set())):
                  try:
                      await client.send_text(msg)
                  except Exception:
                      pass
      except WebSocketDisconnect:
          pass
      finally:
          rooms.get(room, set()).discard(ws)
  \<close>
  The specification names the three pieces of this handler Join (line 311), Broadcast
  (lines 315 to 319) and Leave (line 323).
\<close>

subsection \<open>Connections, Python sets and the registry\<close>

text \<open>
  A connection is the identity of one \<^verbatim>\<open>WebSocket\<close> object. A Python \<^verbatim>\<open>set\<close> of
  connections is kept as the list of its elements, each held once; \<^verbatim>\<open>list(s)\<close> is
  that list. Python leaves the iteration order of a set open, and no statement below
  depends on the order chosen here (new elements go to the end).
\<close>

type_synonym conn = nat

definition set_add :: "conn \<Rightarrow> conn list \<Rightarrow> conn list" where
  "set_add x s = (if x \<in> set s then s else s @ [x])"

definition set_discard :: "conn \<Rightarrow> conn list \<Rightarrow> conn list" where
  "set_discard x s = filter (\<lambda>y. y \<noteq> x) s"

type_synonym registry = "string \<rightharpoonup> conn list"

text \<open>\<^verbatim>\<open>rooms.setdefault(room, set())\<close>: an absent key is bound to a new empty set.\<close>

definition rooms_setdefault :: "registry \<Rightarrow> string \<Rightarrow> registry" where
  "rooms_setdefault d room = (case d room of None \<Rightarrow> d(room \<mapsto> []) | Some s \<Rightarrow> d)"

text \<open>\<^verbatim>\<open>rooms.get(room, set())\<close>: the set bound to the key, or a new empty set that
  the dictionary does not hold.\<close>

definition rooms_get :: "registry \<Rightarrow> string \<Rightarrow> conn list" where
  "rooms_get d room = (case d room of None \<Rightarrow> [] | Some s \<Rightarrow> s)"

text \<open>Line 311. The set returned by \<^verbatim>\<open>setdefault\<close> is the one the dictionary holds, so
  \<^verbatim>\<open>add\<close> changes the registry.\<close>

definition join :: "string \<Rightarrow> conn \<Rightarrow> registry \<Rightarrow> registry" where
  "join room ws d =
     (let d' = rooms_setdefault d room in d'(room \<mapsto> set_add ws (rooms_get d' room)))"

text \<open>Line 323. For an absent key \<^verbatim>\<open>discard\<close> works on the temporary default set and
  the registry is not touched; for a present key it changes the set in place and the key
  stays bound. There is no \<^verbatim>\<open>del\<close> or \<^verbatim>\<open>pop\<close> on \<^verbatim>\<open>rooms\<close> anywhere in the file.\<close>

definition leave :: "string \<Rightarrow> conn \<Rightarrow> registry \<Rightarrow> registry" where
  "leave room ws d =
     (case d room of None \<Rightarrow> d | Some s \<Rightarrow> d(room \<mapsto> set_discard ws s))"

subsection \<open>Sending\<close>

text \<open>
  \<^verbatim>\<open>client.send_text(msg)\<close> either returns or raises. The exceptions are those derived
  from \<^verbatim>\<open>Exception\<close> that a send on a dead connection raises; all of them are caught by
  line 318. The behaviour of the transport is a parameter: \<open>net n client msg\<close> is the
  outcome of the call when \<open>n\<close> calls of \<^verbatim>\<open>send_text\<close> have been made before it, so a
  connection may work at one moment and fail at another.
\<close>

datatype exn = WebSocketDisconnect | RuntimeError

datatype send_result = Returned | Raised exn

type_synonym network = "nat \<Rightarrow> conn \<Rightarrow> string \<Rightarrow> send_result"

text \<open>One call of \<^verbatim>\<open>send_text\<close>: the connection, the payload and the outcome.\<close>

type_synonym call = "conn \<times> string \<times> send_result"

record world =
  rooms :: registry
  wire :: "call list"

definition init :: world where
  "init = \<lparr>rooms = Map.empty, wire = []\<rparr>"

text \<open>Lines 315 to 319, the loop over the snapshot. The first component of the result is
  the exception that leaves the loop, if any; the second is the record of all calls made.
  Both outcomes of the call continue with the next client: \<^verbatim>\<open>except Exception: pass\<close>.
  The loop body reads neither \<^verbatim>\<open>rooms\<close> nor \<^verbatim>\<open>ws\<close>.\<close>

fun fanout :: "network \<Rightarrow> string \<Rightarrow> conn list \<Rightarrow> call list \<Rightarrow> exn option \<times> call list" where
  "fanout net msg [] log = (None, log)"
| "fanout net msg (client # rest) log =
     (case net (length log) client msg of
        Returned \<Rightarrow> fanout net msg rest (log @ [(client, msg, Returned)])
      | Raised e \<Rightarrow> fanout net msg rest (log @ [(client, msg, Raised e)]))"

text \<open>Lines 315 to 319 for the message \<open>msg\<close> that \<^verbatim>\<open>ws.receive_text()\<close> returned in the
  handler of \<open>ws\<close>: the snapshot is \<^verbatim>\<open>list(rooms.get(room, set()))\<close>.\<close>

definition broadcast :: "network \<Rightarrow> string \<Rightarrow> conn \<Rightarrow> string \<Rightarrow> world \<Rightarrow> exn option \<times> world" where
  "broadcast net room ws msg w =
     (case fanout net msg (rooms_get (rooms w) room) (wire w) of
        (e, log) \<Rightarrow> (e, w\<lparr>wire := log\<rparr>))"

subsection \<open>Handlers running side by side\<close>

text \<open>
  Every open connection runs its own instance of \<^verbatim>\<open>ws_room\<close>. An event is one piece of
  one handler: the connection is accepted and joins (lines 310 and 311), a text arrives
  and is fanned out (lines 314 to 319), or \<^verbatim>\<open>receive_text\<close> raises and the
  \<^verbatim>\<open>finally\<close> clause runs (lines 320 to 323). An exception leaving the fan-out would
  reach the \<^verbatim>\<open>finally\<close> clause as well.
\<close>

datatype event = Accept conn string | Text conn string string | Disconnect conn string

fun step :: "network \<Rightarrow> event \<Rightarrow> world \<Rightarrow> world" where
  "step net (Accept ws room) w = w\<lparr>rooms := join room ws (rooms w)\<rparr>"
| "step net (Text ws room msg) w =
     (case broadcast net room ws msg w of
        (None, w') \<Rightarrow> w'
      | (Some e, w') \<Rightarrow> w'\<lparr>rooms := leave room ws (rooms w')\<rparr>)"
| "step net (Disconnect ws room) w = w\<lparr>rooms := leave room ws (rooms w)\<rparr>"

fun run :: "network \<Rightarrow> event list \<Rightarrow> world \<Rightarrow> world" where
  "run net [] w = w"
| "run net (ev # evs) w = run net evs (step net ev w)"

text \<open>One whole handler on its own: the client connects to \<open>room\<close>, sends the texts
  \<open>inbound\<close> and closes.\<close>

definition ws_room :: "network \<Rightarrow> conn \<Rightarrow> string \<Rightarrow> string list \<Rightarrow> world \<Rightarrow> world" where
  "ws_room net ws room inbound w =
     run net (Accept ws room # map (Text ws room) inbound @ [Disconnect ws room]) w"

subsection \<open>Observations\<close>

text \<open>The calls of \<^verbatim>\<open>send_text\<close> made between the world \<open>w\<close> and the later world \<open>w'\<close>.\<close>

definition calls_since :: "world \<Rightarrow> world \<Rightarrow> call list" where
  "calls_since w w' = drop (length (wire w)) (wire w')"

text \<open>The texts that reached the connection \<open>c\<close> among the calls \<open>cs\<close>.\<close>

definition received :: "conn \<Rightarrow> call list \<Rightarrow> string list" where
  "received c cs = map (\<lambda>k. fst (snd k)) (filter (\<lambda>k. fst k = c \<and> snd (snd k) = Returned) cs)"

text \<open>What the loop does, written without the accumulator: one call per client of the
  snapshot, in order, the \<open>n\<close>-th call of the run getting the outcome \<open>net n\<close>.\<close>

fun attempts :: "network \<Rightarrow> string \<Rightarrow> nat \<Rightarrow> conn list \<Rightarrow> call list" where
  "attempts net msg n [] = []"
| "attempts net msg n (c # cs) = (c, msg, net n c msg) # attempts net msg (Suc n) cs"

text \<open>Two transports for the examples: one on which every send works, and one on which
  every send to connection 1 fails.\<close>

definition all_ok :: network where
  "all_ok n c msg = Returned"

definition broken1 :: network where
  "broken1 n c msg = (if c = 1 then Raised RuntimeError else Returned)"

section \<open>Facts about the loop and the registry\<close>

lemma fanout_attempts:
  "fanout net msg cs log = (None, log @ attempts net msg (length log) cs)"
proof (induction cs arbitrary: log)
  case Nil
  show ?case by simp
next
  case (Cons c cs)
  show ?case
    by (cases "net (length log) c msg") (simp_all add: Cons.IH)
qed

lemma broadcast_eq:
  "broadcast net room ws msg w =
     (None, w\<lparr>wire := wire w @ attempts net msg (length (wire w)) (rooms_get (rooms w) room)\<rparr>)"
  by (simp add: broadcast_def fanout_attempts)

lemma calls_since_broadcast:
  "calls_since w (snd (broadcast net room ws msg w)) =
     attempts net msg (length (wire w)) (rooms_get (rooms w) room)"
  by (simp add: broadcast_eq calls_since_def)

lemma map_fst_attempts: "map fst (attempts net msg n cs) = cs"
  by (induction cs arbitrary: n) simp_all

lemma payload_attempts:
  "map (\<lambda>k. fst (snd k)) (attempts net msg n cs) = replicate (length cs) msg"
  by (induction cs arbitrary: n) simp_all

lemma length_attempts: "length (attempts net msg n cs) = length cs"
  by (induction cs arbitrary: n) simp_all

lemma attempts_append:
  "attempts net msg n (xs @ ys) = attempts net msg n xs @ attempts net msg (n + length xs) ys"
  by (induction xs arbitrary: n) simp_all

lemma distinct_set_add: "distinct s \<Longrightarrow> distinct (set_add x s)"
  by (simp add: set_add_def)

lemma distinct_set_discard: "distinct s \<Longrightarrow> distinct (set_discard x s)"
  by (simp add: set_discard_def)

lemma set_set_add: "set (set_add x s) = insert x (set s)"
  by (auto simp: set_add_def)

lemma set_set_discard: "set (set_discard x s) = set s - {x}"
  by (auto simp: set_discard_def)

lemma rooms_get_join:
  "rooms_get (join room ws d) r =
     (if r = room then set_add ws (rooms_get d room) else rooms_get d r)"
  by (simp add: join_def rooms_get_def rooms_setdefault_def Let_def split: option.splits)

lemma rooms_get_leave:
  "rooms_get (leave room ws d) r =
     (if r = room then set_discard ws (rooms_get d room) else rooms_get d r)"
  by (simp add: leave_def rooms_get_def set_discard_def split: option.splits)

text \<open>Every set in the registry holds each of its elements once, whatever the handlers
  have done so far.\<close>

lemma distinct_step:
  assumes "\<And>r. distinct (rooms_get (rooms w) r)"
  shows "distinct (rooms_get (rooms (step net ev w)) r)"
proof (cases ev)
  case (Accept ws room)
  then show ?thesis using assms by (simp add: rooms_get_join distinct_set_add)
next
  case (Text ws room msg)
  then show ?thesis using assms by (simp add: broadcast_eq)
next
  case (Disconnect ws room)
  then show ?thesis using assms by (simp add: rooms_get_leave distinct_set_discard)
qed

lemma distinct_run:
  "(\<And>r. distinct (rooms_get (rooms w) r)) \<Longrightarrow> distinct (rooms_get (rooms (run net evs w)) r)"
proof (induction evs arbitrary: w r)
  case Nil
  then show ?case by simp
next
  case (Cons ev evs)
  show ?case
    unfolding run.simps
    by (rule Cons.IH) (rule distinct_step, rule Cons.prems)
qed

lemma distinct_reachable: "distinct (rooms_get (rooms (run net evs init)) r)"
  by (rule distinct_run) (simp add: init_def rooms_get_def)

lemma filter_attempts_other:
  "c \<notin> set cs \<Longrightarrow> filter (\<lambda>k. fst k = c) (attempts net msg n cs) = []"
  by (induction cs arbitrary: n) simp_all

lemma count_list_distinct: "distinct xs \<Longrightarrow> x \<in> set xs \<Longrightarrow> count_list xs x = 1"
  by (induction xs) auto

lemma set_add_idem: "set_add x (set_add x s) = set_add x s"
  by (simp add: set_add_def)

lemma set_discard_idem: "set_discard x (set_discard x s) = set_discard x s"
  by (simp add: set_discard_def)

lemma set_discard_absent: "x \<notin> set s \<Longrightarrow> set_discard x s = s"
  by (induction s) (simp_all add: set_discard_def)

lemma join_some: "join room ws d room = Some (set_add ws (rooms_get d room))"
  by (simp add: join_def rooms_get_def rooms_setdefault_def Let_def split: option.splits)

lemma join_other: "r \<noteq> room \<Longrightarrow> join room ws d r = d r"
  by (simp add: join_def rooms_get_def rooms_setdefault_def Let_def split: option.splits)

lemma join_idem: "join room ws (join room ws d) = join room ws d"
  by (simp add: join_def rooms_get_def rooms_setdefault_def Let_def set_add_idem
      split: option.splits)

lemma leave_idem: "leave room ws (leave room ws d) = leave room ws d"
  by (simp add: leave_def set_discard_idem split: option.splits)

lemma leave_absent: "ws \<notin> set (rooms_get d room) \<Longrightarrow> leave room ws d = d"
  by (auto simp: leave_def rooms_get_def set_discard_absent split: option.splits)

lemma dom_leave: "dom (leave room ws d) = dom d"
  by (auto simp: leave_def split: option.splits)

text \<open>No exception leaves the fan-out, so a text event is the fan-out and nothing else.\<close>

lemma step_Text: "step net (Text ws room msg) w = snd (broadcast net room ws msg w)"
  by (simp add: broadcast_eq)

text \<open>The equations that compute the model on concrete worlds.\<close>

lemmas unfold_all = broadcast_def init_def join_def leave_def rooms_get_def
  rooms_setdefault_def set_add_def set_discard_def calls_since_def received_def ws_room_def
  all_ok_def broken1_def

section \<open>The claims\<close>

subsection \<open>C1: who is sent a broadcast\<close>

text \<open>
  C1 says that the fan-out of a message received from a connection reaches every other
  member of the room and never calls send on the sender. The loop of lines 315 to 319
  runs over the whole snapshot and does not compare \<^verbatim>\<open>client\<close> with \<^verbatim>\<open>ws\<close>, so
  the claim holds only in its first half. As amended: Broadcast calls send once on every
  current member of the room, in the order of the snapshot, and the sender, which is a
  member of its own room from line 311 on, is one of them.
\<close>

theorem C1_broadcast_calls_every_member:
  "map fst (calls_since w (snd (broadcast net room ws msg w))) = rooms_get (rooms w) room
   \<and> ws \<in> fst ` set (calls_since (step net (Accept ws room) w)
                      (step net (Text ws room msg) (step net (Accept ws room) w)))"
proof -
  let ?w1 = "step net (Accept ws room) w"
  have "map fst (calls_since ?w1 (step net (Text ws room msg) ?w1)) = rooms_get (rooms ?w1) room"
    unfolding step_Text calls_since_broadcast by (rule map_fst_attempts)
  moreover have "ws \<in> set (rooms_get (rooms ?w1) room)"
    by (simp add: rooms_get_join set_set_add)
  ultimately have "ws \<in> set (map fst (calls_since ?w1 (step net (Text ws room msg) ?w1)))"
    by simp
  then show ?thesis
    by (simp add: calls_since_broadcast map_fst_attempts)
qed

text \<open>Connections 0 and 1 are in room r1, and 0 sends: send is called on 0 and on 1.\<close>

theorem C1_broadcast_calls_every_member_witness:
  "map fst (calls_since (run all_ok [Accept 0 ''r1'', Accept 1 ''r1''] init)
      (snd (broadcast all_ok ''r1'' 0 ''hi'' (run all_ok [Accept 0 ''r1'', Accept 1 ''r1''] init))))
    = [0, 1]"
  using C1_broadcast_calls_every_member
    [of "run all_ok [Accept 0 ''r1'', Accept 1 ''r1''] init" all_ok "''r1''" 0 "''hi''"]
  by (simp add: init_def join_def rooms_get_def rooms_setdefault_def set_add_def)

text \<open>The first scenario of the specification: 0 and 1 join r1 and 0 sends the text hi.
  The sender is sent its own text.\<close>

theorem C1_sender_is_sent_its_own_text:
  "wire (run all_ok [Accept 0 ''r1'', Accept 1 ''r1'', Text 0 ''r1'' ''hi''] init)
     = [(0, ''hi'', Returned), (1, ''hi'', Returned)]"
  by (simp add: unfold_all)

subsection \<open>C2: a recipient whose send fails\<close>

text \<open>
  C2 says that a recipient whose send fails is removed from the room, so that a later
  Broadcast does not try it again. Line 318 and 319 catch the exception and do nothing
  else; the registry is changed in lines 311 and 323 only. As amended: a failed send is
  ignored; the recipient is still a member of the room after the Broadcast, and the next
  Broadcast into the room calls send on it again.
\<close>

theorem C2_send_failure_is_ignored:
  assumes "(c, msg, Raised e) \<in> set (calls_since w (snd (broadcast net room ws msg w)))"
  shows "c \<in> set (rooms_get (rooms (snd (broadcast net room ws msg w))) room)
     \<and> c \<in> fst ` set (calls_since (snd (broadcast net room ws msg w))
            (snd (broadcast net room ws' msg' (snd (broadcast net room ws msg w)))))"
proof -
  let ?w' = "snd (broadcast net room ws msg w)"
  have "c \<in> fst ` set (calls_since w ?w')"
    using assms by force
  then have "c \<in> set (map fst (calls_since w ?w'))"
    by simp
  then have mem: "c \<in> set (rooms_get (rooms w) room)"
    by (simp only: calls_since_broadcast map_fst_attempts)
  have same: "rooms ?w' = rooms w"
    by (simp add: broadcast_eq)
  have "map fst (calls_since ?w' (snd (broadcast net room ws' msg' ?w')))
      = rooms_get (rooms ?w') room"
    by (simp only: calls_since_broadcast map_fst_attempts)
  then have "set (map fst (calls_since ?w' (snd (broadcast net room ws' msg' ?w'))))
      = set (rooms_get (rooms w) room)"
    using same by simp
  then show ?thesis using mem same by auto
qed

text \<open>Connections 0, 1 and 2 are in room r2 and every send to 1 fails. When 0 sends x
  the call on 1 raises; 1 stays in the room and is called again when 0 sends y.\<close>

theorem C2_send_failure_is_ignored_witness:
  "(1, ''x'', Raised RuntimeError)
     \<in> set (calls_since (run broken1 [Accept 0 ''r2'', Accept 1 ''r2'', Accept 2 ''r2''] init)
         (snd (broadcast broken1 ''r2'' 0 ''x''
           (run broken1 [Accept 0 ''r2'', Accept 1 ''r2'', Accept 2 ''r2''] init))))
   \<and> 1 \<in> set (rooms_get (rooms (snd (broadcast broken1 ''r2'' 0 ''x''
           (run broken1 [Accept 0 ''r2'', Accept 1 ''r2'', Accept 2 ''r2''] init)))) ''r2'')
   \<and> 1 \<in> fst ` set (calls_since
         (snd (broadcast broken1 ''r2'' 0 ''x''
           (run broken1 [Accept 0 ''r2'', Accept 1 ''r2'', Accept 2 ''r2''] init)))
         (snd (broadcast broken1 ''r2'' 0 ''y''
           (snd (broadcast broken1 ''r2'' 0 ''x''
             (run broken1 [Accept 0 ''r2'', Accept 1 ''r2'', Accept 2 ''r2''] init))))))"
proof -
  let ?w = "run broken1 [Accept 0 ''r2'', Accept 1 ''r2'', Accept 2 ''r2''] init"
  have h: "(1, ''x'', Raised RuntimeError)
      \<in> set (calls_since ?w (snd (broadcast broken1 ''r2'' 0 ''x'' ?w)))"
    by (simp add: unfold_all)
  show ?thesis
    using h C2_send_failure_is_ignored [OF h, of 0 "''y''"] by simp
qed

text \<open>The second scenario of the specification: after the failed send 1 is still in
  the set of r2, and the second text of 0 is sent to it as the first was.\<close>

theorem C2_failed_recipient_is_still_a_member:
  "rooms_get (rooms (run broken1
        [Accept 0 ''r2'', Accept 1 ''r2'', Accept 2 ''r2'', Text 0 ''r2'' ''x''] init)) ''r2''
     = [0, 1, 2]
   \<and> wire (run broken1
        [Accept 0 ''r2'', Accept 1 ''r2'', Accept 2 ''r2'', Text 0 ''r2'' ''x'',
         Text 0 ''r2'' ''y''] init)
     = [(0, ''x'', Returned), (1, ''x'', Raised RuntimeError), (2, ''x'', Returned),
        (0, ''y'', Returned), (1, ''y'', Raised RuntimeError), (2, ''y'', Returned)]"
  by (simp add: unfold_all)

subsection \<open>C3: the last member leaves\<close>

text \<open>
  C3 says that when a Leave removes the last member of a room the entry of the room is
  deleted from the registry, so that the registry never holds a room with no members.
  Line 323 discards the connection from the set and nothing in the file deletes a key of
  \<^verbatim>\<open>rooms\<close>. As amended: Leave removes the connection from the membership set of
  the room, keeps every other member of it and every other room as they are, and never
  deletes an entry: the keys of the registry are the same before and after, and when the
  last member leaves, the room stays in the registry, bound to the empty set.
\<close>

theorem C3_leave_keeps_room_entry:
  "dom (leave room ws d) = dom d
   \<and> leave room ws d room = map_option (filter (\<lambda>y. y \<noteq> ws)) (d room)
   \<and> set (rooms_get (leave room ws d) room) = set (rooms_get d room) - {ws}
   \<and> (\<forall>r. r \<noteq> room \<longrightarrow> leave room ws d r = d r)
   \<and> (\<forall>s. d room = Some s \<and> set s \<subseteq> {ws} \<longrightarrow> leave room ws d room = Some [])"
proof -
  have at_room: "leave room ws d room = map_option (filter (\<lambda>y. y \<noteq> ws)) (d room)"
    by (simp add: leave_def set_discard_def split: option.splits)
  have members: "set (rooms_get (leave room ws d) room) = set (rooms_get d room) - {ws}"
    by (simp add: rooms_get_leave set_set_discard)
  have elsewhere: "leave room ws d r = d r" if "r \<noteq> room" for r
    using that by (simp add: leave_def split: option.splits)
  have last: "leave room ws d room = Some []" if "d room = Some s" and "set s \<subseteq> {ws}" for s
  proof -
    have "filter (\<lambda>y. y \<noteq> ws) s = []"
      using that(2) by (auto simp: filter_empty_conv)
    then show ?thesis
      using that(1) by (simp add: at_room)
  qed
  show ?thesis
    using at_room members elsewhere last by (simp add: dom_leave)
qed

text \<open>Connection 0 is the only member of room r and leaves: r stays, bound to the empty
  set. Connection 1 leaves room r that holds 0 and 1 while room q holds 2: 0 stays in r
  and q is as it was.\<close>

theorem C3_leave_keeps_room_entry_witness:
  "leave ''r'' 0 [''r'' \<mapsto> [0]] ''r'' = Some []
   \<and> dom (leave ''r'' 0 [''r'' \<mapsto> [0]]) = {''r''}
   \<and> leave ''r'' 1 [''r'' \<mapsto> [0, 1], ''q'' \<mapsto> [2]] ''r'' = Some [0]
   \<and> leave ''r'' 1 [''r'' \<mapsto> [0, 1], ''q'' \<mapsto> [2]] ''q'' = Some [2]
   \<and> dom (leave ''r'' 1 [''r'' \<mapsto> [0, 1], ''q'' \<mapsto> [2]]) = {''r'', ''q''}"
  using C3_leave_keeps_room_entry [of "''r''" 0 "[''r'' \<mapsto> [0]]"]
    C3_leave_keeps_room_entry [of "''r''" 1 "[''r'' \<mapsto> [0, 1], ''q'' \<mapsto> [2]]"]
  by auto

text \<open>One client connects to room r, sends nothing and closes: starting from the empty
  registry, the handler leaves an entry for r with no members behind.\<close>

theorem C3_empty_room_is_retained:
  "rooms (ws_room all_ok 0 ''r'' [] init) ''r'' = Some []"
  by (simp add: unfold_all)

subsection \<open>C4: one copy for every member\<close>

text \<open>
  C4: for a Broadcast of one message into a room, every connection that is a member of
  the room when the snapshot is taken is called exactly once with that message, and
  receives exactly one copy of it when its send does not fail. The world is any world
  the handlers can have produced from the empty registry.
\<close>

theorem C4_each_member_called_once:
  assumes "w = run net evs init" and "c \<in> set (rooms_get (rooms w) room)"
  shows "\<exists>r. filter (\<lambda>k. fst k = c) (calls_since w (snd (broadcast net room ws msg w)))
        = [(c, msg, r)]
     \<and> received c (calls_since w (snd (broadcast net room ws msg w)))
        = (if r = Returned then [msg] else [])"
proof -
  let ?xs = "rooms_get (rooms w) room"
  let ?n = "length (wire w)"
  have d: "distinct ?xs"
    unfolding assms(1) by (rule distinct_reachable)
  obtain pre post where xs: "?xs = pre @ c # post"
    using assms(2) by (auto simp: in_set_conv_decomp)
  have "c \<notin> set pre" and "c \<notin> set post"
    using d xs by auto
  then have f: "filter (\<lambda>k. fst k = c) (attempts net msg ?n ?xs)
      = [(c, msg, net (?n + length pre) c msg)]"
    by (simp add: xs attempts_append filter_attempts_other)
  have r: "received c cs
      = map (\<lambda>k. fst (snd k))
          (filter (\<lambda>k. snd (snd k) = Returned) (filter (\<lambda>k. fst k = c) cs))" for cs
    by (simp add: received_def conj_commute)
  show ?thesis
    unfolding calls_since_broadcast r f by simp
qed

text \<open>Connections 0, 1 and 2 are in room r3, sends to 1 fail, and 0 sends x: connection
  2 gets one copy of x and connection 1, whose send fails, gets none.\<close>

theorem C4_each_member_called_once_witness:
  "2 \<in> set (rooms_get (rooms (run broken1 [Accept 0 ''r3'', Accept 1 ''r3'', Accept 2 ''r3''] init))
        ''r3'')
   \<and> filter (\<lambda>k. fst k = 2)
        (calls_since (run broken1 [Accept 0 ''r3'', Accept 1 ''r3'', Accept 2 ''r3''] init)
          (snd (broadcast broken1 ''r3'' 0 ''x''
            (run broken1 [Accept 0 ''r3'', Accept 1 ''r3'', Accept 2 ''r3''] init))))
      = [(2, ''x'', Returned)]
   \<and> received 2
        (calls_since (run broken1 [Accept 0 ''r3'', Accept 1 ''r3'', Accept 2 ''r3''] init)
          (snd (broadcast broken1 ''r3'' 0 ''x''
            (run broken1 [Accept 0 ''r3'', Accept 1 ''r3'', Accept 2 ''r3''] init))))
      = [''x'']
   \<and> received 1
        (calls_since (run broken1 [Accept 0 ''r3'', Accept 1 ''r3'', Accept 2 ''r3''] init)
          (snd (broadcast broken1 ''r3'' 0 ''x''
            (run broken1 [Accept 0 ''r3'', Accept 1 ''r3'', Accept 2 ''r3''] init))))
      = []"
proof -
  let ?w = "run broken1 [Accept 0 ''r3'', Accept 1 ''r3'', Accept 2 ''r3''] init"
  have h: "2 \<in> set (rooms_get (rooms ?w) ''r3'')"
    by (simp add: unfold_all)
  show ?thesis
    using h C4_each_member_called_once [OF refl h, of 0 "''x''"]
    by (simp add: unfold_all)
qed

subsection \<open>C5: joining\<close>

text \<open>
  C5: Join has no error case. It puts the connection into the membership set of the room
  named by the key, creating the entry when the key is absent, and touches no other
  room. Joining the same connection into the same room a second time changes nothing,
  and in every registry the handlers can have produced the connection is then held
  exactly once.
\<close>

theorem C5_join_inserts_once:
  "set (rooms_get (join room ws d) room) = insert ws (set (rooms_get d room))
   \<and> join room ws d room = Some (set_add ws (rooms_get d room))
   \<and> (\<forall>r. r \<noteq> room \<longrightarrow> join room ws d r = d r)
   \<and> join room ws (join room ws d) = join room ws d
   \<and> count_list (rooms_get (join room ws (join room ws (rooms (run net evs init)))) room) ws = 1"
proof -
  let ?d = "rooms (run net evs init)"
  have "distinct (rooms_get (join room ws ?d) room)"
    by (simp add: rooms_get_join distinct_set_add distinct_reachable)
  moreover have "ws \<in> set (rooms_get (join room ws ?d) room)"
    by (simp add: rooms_get_join set_set_add)
  ultimately have "count_list (rooms_get (join room ws ?d) room) ws = 1"
    by (rule count_list_distinct)
  then show ?thesis
    by (simp add: join_idem join_some join_other rooms_get_join set_set_add)
qed

text \<open>Connection 7 joins the absent room r twice: the room is created and holds 7 once;
  the absent room q stays absent.\<close>

theorem C5_join_inserts_once_witness:
  "join ''r'' 7 Map.empty ''r'' = Some [7]
   \<and> join ''r'' 7 Map.empty ''q'' = None
   \<and> rooms_get (join ''r'' 7 (join ''r'' 7 Map.empty)) ''r'' = [7]
   \<and> count_list (rooms_get (join ''r'' 7 (join ''r'' 7 (rooms (run all_ok [] init)))) ''r'') 7 = 1"
  using C5_join_inserts_once [of "''r''" 7 Map.empty all_ok "[]"]
  by (simp add: unfold_all)

subsection \<open>C6: leaving twice\<close>

text \<open>
  C6: Leave is idempotent. Leaving twice gives the same registry as leaving once, and
  leaving a room the connection is not in leaves the registry as it is.
\<close>

theorem C6_leave_idempotent:
  "leave room ws (leave room ws d) = leave room ws d
   \<and> (ws \<notin> set (rooms_get d room) \<longrightarrow> leave room ws d = d)"
  by (simp add: leave_idem leave_absent)

text \<open>Room r holds 0 and 1; connection 5 is not in it.\<close>

theorem C6_leave_idempotent_witness:
  "5 \<notin> set (rooms_get [''r'' \<mapsto> [0, 1]] ''r'')
   \<and> leave ''r'' 5 [''r'' \<mapsto> [0, 1]] = [''r'' \<mapsto> [0, 1]]
   \<and> leave ''r'' 5 (leave ''r'' 5 [''r'' \<mapsto> [0, 1]]) = leave ''r'' 5 [''r'' \<mapsto> [0, 1]]"
proof -
  have h: "5 \<notin> set (rooms_get [''r'' \<mapsto> [0, 1]] ''r'')"
    by (simp add: rooms_get_def)
  show ?thesis
    using h C6_leave_idempotent [of "''r''" 5 "[''r'' \<mapsto> [0, 1]]"] by simp
qed

subsection \<open>C7: absent and empty rooms\<close>

text \<open>
  C7: for a room key that is absent from the registry, or bound to the empty set,
  Broadcast and Leave raise nothing and change nothing: no send is made and the world
  after is the world before.
\<close>

theorem C7_absent_or_empty_room_noop:
  assumes "rooms w room = None \<or> rooms w room = Some []"
  shows "broadcast net room ws msg (w::world) = (None, w)
     \<and> leave room ws (rooms w) = rooms w
     \<and> step net (Text ws room msg) w = w
     \<and> step net (Disconnect ws room) w = w"
proof -
  have g: "rooms_get (rooms w) room = []"
    using assms by (auto simp: rooms_get_def)
  have l: "leave room ws (rooms w) = rooms w"
    by (rule leave_absent) (simp add: g)
  show ?thesis
    by (simp add: broadcast_eq g l)
qed

text \<open>Room r1 has been left by its only member, room r9 was never joined; a text of
  connection 0 into either of them and a Leave of 0 from either of them do nothing.\<close>

theorem C7_absent_or_empty_room_noop_witness:
  "rooms (run all_ok [Accept 0 ''r1'', Disconnect 0 ''r1''] init) ''r1'' = Some []
   \<and> rooms (run all_ok [Accept 0 ''r1'', Disconnect 0 ''r1''] init) ''r9'' = None
   \<and> broadcast all_ok ''r1'' 0 ''yo'' (run all_ok [Accept 0 ''r1'', Disconnect 0 ''r1''] init)
      = (None, run all_ok [Accept 0 ''r1'', Disconnect 0 ''r1''] init)
   \<and> broadcast all_ok ''r9'' 0 ''yo'' (run all_ok [Accept 0 ''r1'', Disconnect 0 ''r1''] init)
      = (None, run all_ok [Accept 0 ''r1'', Disconnect 0 ''r1''] init)
   \<and> step all_ok (Disconnect 0 ''r1'') (run all_ok [Accept 0 ''r1'', Disconnect 0 ''r1''] init)
      = run all_ok [Accept 0 ''r1'', Disconnect 0 ''r1''] init
   \<and> step all_ok (Disconnect 0 ''r9'') (run all_ok [Accept 0 ''r1'', Disconnect 0 ''r1''] init)
      = run all_ok [Accept 0 ''r1'', Disconnect 0 ''r1''] init"
proof -
  let ?w = "run all_ok [Accept 0 ''r1'', Disconnect 0 ''r1''] init"
  have h1: "rooms ?w ''r1'' = Some []"
    by (simp add: unfold_all)
  have h9: "rooms ?w ''r9'' = None"
    by (simp add: unfold_all)
  show ?thesis
    using h1 h9
      C7_absent_or_empty_room_noop [OF disjI2 [OF h1], of all_ok 0 "''yo''"]
      C7_absent_or_empty_room_noop [OF disjI1 [OF h9], of all_ok 0 "''yo''"]
    by simp
qed

subsection \<open>C8: a failing send is confined to its recipient\<close>

text \<open>
  C8: when the send to one recipient of the snapshot raises, no exception leaves
  Broadcast, the failed call is recorded for that recipient alone, and every recipient
  that follows it in the snapshot is still called, as every recipient before it was.
\<close>

theorem C8_send_failure_confined:
  assumes "rooms_get (rooms w) room = pre @ c # post"
    and "net (length (wire w) + length pre) c msg = Raised e"
  shows "fst (broadcast net room ws msg w) = None
     \<and> map fst (calls_since w (snd (broadcast net room ws msg w))) = pre @ c # post
     \<and> calls_since w (snd (broadcast net room ws msg w)) ! length pre = (c, msg, Raised e)
     \<and> map fst (drop (Suc (length pre)) (calls_since w (snd (broadcast net room ws msg w))))
        = post"
proof -
  have "calls_since w (snd (broadcast net room ws msg w))
      = attempts net msg (length (wire w)) pre
        @ (c, msg, Raised e) # attempts net msg (Suc (length (wire w) + length pre)) post"
    by (simp add: calls_since_broadcast assms attempts_append)
  then show ?thesis
    by (simp add: broadcast_eq nth_append length_attempts map_fst_attempts)
qed

text \<open>Room r2 holds 0, 1 and 2, in this order, and sends to 1 fail. When 0 sends x the
  second call raises, and 2 is called after it.\<close>

theorem C8_send_failure_confined_witness:
  "rooms_get (rooms (run broken1 [Accept 0 ''r2'', Accept 1 ''r2'', Accept 2 ''r2''] init)) ''r2''
      = [0] @ 1 # [2]
   \<and> broken1
        (length (wire (run broken1 [Accept 0 ''r2'', Accept 1 ''r2'', Accept 2 ''r2''] init))
          + length [0::nat]) 1 ''x'' = Raised RuntimeError
   \<and> fst (broadcast broken1 ''r2'' 0 ''x''
        (run broken1 [Accept 0 ''r2'', Accept 1 ''r2'', Accept 2 ''r2''] init)) = None
   \<and> map fst (drop 2
        (calls_since (run broken1 [Accept 0 ''r2'', Accept 1 ''r2'', Accept 2 ''r2''] init)
          (snd (broadcast broken1 ''r2'' 0 ''x''
            (run broken1 [Accept 0 ''r2'', Accept 1 ''r2'', Accept 2 ''r2''] init))))) = [2]"
proof -
  let ?w = "run broken1 [Accept 0 ''r2'', Accept 1 ''r2'', Accept 2 ''r2''] init"
  have h1: "rooms_get (rooms ?w) ''r2'' = [0] @ 1 # [2]"
    by (simp add: unfold_all)
  have h2: "broken1 (length (wire ?w) + length [0::nat]) 1 ''x'' = Raised RuntimeError"
    by (simp add: broken1_def)
  show ?thesis
    using h1 h2
      C8_send_failure_confined
        [where w = ?w and net = broken1 and room = "''r2''" and pre = "[0]" and c = 1
           and post = "[2]" and msg = "''x''" and e = RuntimeError and ws = 0, OF h1 h2]
    by (simp add: numeral_2_eq_2)
qed

subsection \<open>C9: Broadcast leaves the registry alone\<close>

text \<open>
  C9: Broadcast never changes the registry. The mapping from rooms to membership sets is
  the same before and after the fan-out of a message, whatever the outcomes of the sends;
  the same holds for the whole handling of a received text.
\<close>

theorem C9_broadcast_keeps_registry:
  "rooms (snd (broadcast net room ws msg w)) = rooms w
   \<and> rooms (step net (Text ws room msg) w) = rooms w"
  by (simp add: broadcast_eq)

text \<open>With a failing send to 1 in room r2, the members of r2 after the text of 0 are
  those before it.\<close>

theorem C9_broadcast_keeps_registry_witness:
  "rooms_get (rooms (snd (broadcast broken1 ''r2'' 0 ''x''
      (run broken1 [Accept 0 ''r2'', Accept 1 ''r2'', Accept 2 ''r2''] init)))) ''r2'' = [0, 1, 2]"
  using C9_broadcast_keeps_registry
    [of broken1 "''r2''" 0 "''x''" "run broken1 [Accept 0 ''r2'', Accept 1 ''r2'', Accept 2 ''r2''] init"]
  by (simp add: init_def join_def rooms_get_def rooms_setdefault_def set_add_def)

subsection \<open>C10: the payload\<close>

text \<open>
  C10: Broadcast forwards the payload as it is. Every call of send made for a received
  text carries that text, character for character.
\<close>

theorem C10_payload_verbatim:
  "map (\<lambda>k. fst (snd k)) (calls_since w (snd (broadcast net room ws msg w)))
     = replicate (length (rooms_get (rooms w) room)) msg
   \<and> map (\<lambda>k. fst (snd k)) (calls_since w (step net (Text ws room msg) w))
     = replicate (length (rooms_get (rooms w) room)) msg"
  by (simp only: step_Text calls_since_broadcast payload_attempts)

text \<open>The three calls made for the text x in room r2 all carry x.\<close>

theorem C10_payload_verbatim_witness:
  "map (\<lambda>k. fst (snd k))
     (calls_since (run broken1 [Accept 0 ''r2'', Accept 1 ''r2'', Accept 2 ''r2''] init)
       (step broken1 (Text 0 ''r2'' ''x'')
         (run broken1 [Accept 0 ''r2'', Accept 1 ''r2'', Accept 2 ''r2''] init)))
    = [''x'', ''x'', ''x'']"
  using C10_payload_verbatim
    [of "run broken1 [Accept 0 ''r2'', Accept 1 ''r2'', Accept 2 ''r2''] init" broken1 "''r2''" 0 "''x''"]
  by (simp add: init_def join_def rooms_get_def rooms_setdefault_def set_add_def
      numeral_3_eq_3)

end
